theory Spec2Isabelle
  imports Main "HOL-Library.AList"
begin

section \<open>The moveitAPI client (Python/src/moveitAPI/moveit.py)\<close>

text \<open>
  The module wraps five REST calls of a file-transfer service.  Each function of the module is
  embedded as a HOL function of the same name.  What the Python code does beyond computing a
  value is made explicit:
  \<^item> every HTTP call appends the request to a log that the function returns;
  \<^item> the answers of the network are an input: a single \<open>http_result\<close> for the functions
    that send one request, and a sequence \<open>nat \<Rightarrow> http_result\<close> for the listers, whose
    \<open>k\<close>-th element answers the request sent after \<open>k\<close> earlier ones.  A theorem about every
    sequence covers every server, whatever the server makes of the request it is sent;
  \<^item> every exception is a value \<open>Inl e\<close> of the result;
  \<^item> the file system is a map from paths to file contents, passed in and returned;
  \<^item> \<open>tokens\<close> is the token mapping, a dict from strings to strings: the f-strings of lines
    35, 57, 97 and 146 render the string under \<open>access_token\<close> as it is;
  \<^item> \<open>base_url\<close>, \<open>file_id\<close>, \<open>folder_id\<close>, \<open>file_path\<close> and \<open>file_type\<close> are strings.
\<close>

subsection \<open>Python values\<close>

text \<open>
  The values \<open>response.json()\<close> produces: \<open>None\<close>, \<open>bool\<close>, \<open>int\<close>, \<open>str\<close>, \<open>list\<close> and
  \<open>dict\<close> (its keys in insertion order, each key once).  JSON numbers with a fraction or an
  exponent decode to floats and are outside this type.
\<close>

datatype json =
    JNull
  | JBool bool
  | JInt int
  | JStr string
  | JArr "json list"
  | JObj "(string \<times> json) list"

datatype error =
    KeyError string
  | TypeError
  | ValueError
  | AttributeError
  | JSONDecodeError
  | UnboundLocalError string
  | FileNotFoundError string
  | ConnectionError
  | ParserError
  | Exception int

text \<open>\<open>v[key]\<close> for a string key: only a dict can be subscripted by a string.\<close>

fun py_getitem :: "json \<Rightarrow> string \<Rightarrow> error + json" where
  "py_getitem (JObj kvs) key =
     (case map_of kvs key of None \<Rightarrow> Inl (KeyError key) | Some v \<Rightarrow> Inr v)"
| "py_getitem _ key = Inl TypeError"

text \<open>
  \<open>int(v)\<close>.  How Python reads an integer out of a string (blanks, sign, underscores, the
  digits of every script) is the interpreter's business: \<open>parse_int\<close> stands for it and is
  a parameter of every function that coerces.
\<close>

fun py_int :: "(string \<Rightarrow> int option) \<Rightarrow> json \<Rightarrow> error + int" where
  "py_int parse_int (JInt n) = Inr n"
| "py_int parse_int (JBool b) = Inr (if b then 1 else 0)"
| "py_int parse_int (JStr s) =
     (case parse_int s of None \<Rightarrow> Inl ValueError | Some n \<Rightarrow> Inr n)"
| "py_int parse_int _ = Inl TypeError"

text \<open>\<open>v + 1\<close>: defined on \<open>int\<close> and \<open>bool\<close>, a \<open>TypeError\<close> elsewhere.\<close>

fun py_add1 :: "json \<Rightarrow> error + int" where
  "py_add1 (JInt n) = Inr (n + 1)"
| "py_add1 (JBool b) = Inr ((if b then 1 else 0) + 1)"
| "py_add1 _ = Inl TypeError"

text \<open>
  \<open>a == b\<close>: \<open>bool\<close> compares as the integers 0 and 1, lists compare element by element,
  dicts by their keys and the values under them, and values of unrelated types differ.
\<close>

fun py_eq :: "json \<Rightarrow> json \<Rightarrow> bool" where
  "py_eq JNull JNull = True"
| "py_eq (JBool a) (JBool b) = (a = b)"
| "py_eq (JBool a) (JInt n) = ((if a then 1 else 0) = n)"
| "py_eq (JInt m) (JBool b) = (m = (if b then 1 else 0))"
| "py_eq (JInt m) (JInt n) = (m = n)"
| "py_eq (JStr s) (JStr t) = (s = t)"
| "py_eq (JArr xs) (JArr ys) = list_all2 py_eq xs ys"
| "py_eq (JObj xs) (JObj ys) =
     (length xs = length ys \<and>
      list_all (\<lambda>(k, v). case map_of ys k of None \<Rightarrow> False | Some w \<Rightarrow> py_eq v w) xs)"
| "py_eq _ _ = False"

text \<open>What \<open>list.extend\<close> takes from its argument: the elements of a list, the characters
  of a string, the keys of a dict; anything else is not iterable.\<close>

fun py_iter :: "json \<Rightarrow> error + json list" where
  "py_iter (JArr xs) = Inr xs"
| "py_iter (JStr s) = Inr (map (\<lambda>c. JStr [c]) s)"
| "py_iter (JObj kvs) = Inr (map (\<lambda>(k, v). JStr k) kvs)"
| "py_iter _ = Inl TypeError"

text \<open>\<open>str(n)\<close> of an integer, as an f-string renders it.\<close>

fun digits :: "nat \<Rightarrow> string" where
  "digits n =
     (if n < 10 then [''0123456789'' ! n]
      else digits (n div 10) @ [''0123456789'' ! (n mod 10)])"

declare digits.simps [simp del]

definition str_of_int :: "int \<Rightarrow> string" where
  "str_of_int i = (if i < 0 then CHR ''-'' # digits (nat (- i)) else digits (nat i))"

subsection \<open>Requests and responses\<close>

text \<open>
  What \<open>requests.get\<close> and \<open>requests.post\<close> are called with.  The body is absent, the
  \<open>data\<close> payload, or the one entry of \<open>files\<close>: its field name, the file name, the bytes
  of the file and its declared type.
\<close>

datatype http_method = GET | POST

datatype body =
    NoBody
  | Data string
  | Files string string string string

record request =
  req_method :: http_method
  req_url :: string
  req_headers :: "(string \<times> string) list"
  req_body :: body
  req_stream :: bool

record response =
  status_code :: int
  reason :: string
  resp_url :: string
  json_body :: "json option"
  content :: string

type_synonym http_result = "error + response"

text \<open>
  \<open>Response.raise_for_status\<close> of the requests library: an \<open>HTTPError\<close> for a status from
  400 to 599, with the library's message, and nothing for any other status.
\<close>

definition raise_for_status :: "response \<Rightarrow> string + unit" where
  "raise_for_status r =
     (if 400 \<le> status_code r \<and> status_code r < 500 then
        Inl (str_of_int (status_code r) @ '' Client Error: '' @ reason r
             @ '' for url: '' @ resp_url r)
      else if 500 \<le> status_code r \<and> status_code r < 600 then
        Inl (str_of_int (status_code r) @ '' Server Error: '' @ reason r
             @ '' for url: '' @ resp_url r)
      else Inr ())"

subsection \<open>auth_move_it (lines 8-20)\<close>

text \<open>
  The function returns a Python value: the string \<open>"Error: " + str(e)\<close> when
  \<open>raise_for_status\<close> raised, what \<open>response.json()\<close> decoded otherwise.  An exception of the
  POST itself, and the decoding error of a body that is not JSON, are not caught.
\<close>

definition auth_move_it :: "http_result \<Rightarrow> string \<Rightarrow> string \<Rightarrow> request list \<times> (error + json)" where
  "auth_move_it answer base_url payload =
     (let url = ''https://moveit.'' @ base_url @ ''/api/v1/token'';
          req = \<lparr>req_method = POST, req_url = url,
                 req_headers = [(''Content-Type'', ''application/json'')],
                 req_body = Data payload, req_stream = False\<rparr>
      in case answer of
           Inl e \<Rightarrow> ([req], Inl e)
         | Inr response \<Rightarrow>
             (case raise_for_status response of
                Inl e \<Rightarrow> ([req], Inr (JStr (''Error: '' @ e)))
              | Inr _ \<Rightarrow>
                  (case json_body response of
                     None \<Rightarrow> ([req], Inl JSONDecodeError)
                   | Some tokens \<Rightarrow> ([req], Inr tokens))))"

subsection \<open>available_files (lines 55-92)\<close>

text \<open>An exception ends the computation: \<open>raise_or m f\<close> runs \<open>f\<close> on what \<open>m\<close> returned.\<close>

definition raise_or :: "error + 'a \<Rightarrow> ('a \<Rightarrow> error + 'b) \<Rightarrow> error + 'b" where
  "raise_or m f = (case m of Inl e \<Rightarrow> Inl e | Inr x \<Rightarrow> f x)"

text \<open>\<open>response.json()\<close>: the decoded body, or the decoding error.\<close>

definition response_json :: "response \<Rightarrow> error + json" where
  "response_json r = (case json_body r of None \<Rightarrow> Inl JSONDecodeError | Some j \<Rightarrow> Inr j)"

text \<open>\<open>files['paging'][key]\<close>.\<close>

definition paging_field :: "json \<Rightarrow> string \<Rightarrow> error + json" where
  "paging_field files key = raise_or (py_getitem files ''paging'') (\<lambda>paging. py_getitem paging key)"

text \<open>
  \<open>items.extend(files['items'])\<close>: the method is looked up on \<open>items\<close> first (only a
  list has it), then the argument is evaluated, then iterated.
\<close>

definition extend_items :: "json \<Rightarrow> json \<Rightarrow> error + json" where
  "extend_items items files =
     (case items of
        JArr xs \<Rightarrow>
          raise_or (py_getitem files ''items'') (\<lambda>v.
          raise_or (py_iter v) (\<lambda>ys. Inr (JArr (xs @ ys))))
      | _ \<Rightarrow> Inl AttributeError)"

text \<open>Lines 85-90: what one more page makes of \<open>items\<close>, \<open>page\<close> and \<open>total_pages\<close>.\<close>

definition files_next :: "(string \<Rightarrow> int option) \<Rightarrow> json \<Rightarrow> json \<Rightarrow> error + json \<times> int \<times> int" where
  "files_next parse_int items files =
     raise_or (extend_items items files) (\<lambda>items.
     raise_or (raise_or (paging_field files ''page'') (py_int parse_int)) (\<lambda>page.
     raise_or (raise_or (paging_field files ''totalPages'') (py_int parse_int)) (\<lambda>total_pages.
     Inr (items, page, total_pages))))"

text \<open>
  The loop of lines 72-92.  Nothing bounds it, so the model counts iterations: with no fuel
  left and \<open>page \<noteq> total_pages\<close> the result is \<open>None\<close>, the loop still running.  The log
  holds the requests sent so far, so the next answer is \<open>answers (length log)\<close>.
\<close>

fun files_loop ::
  "nat \<Rightarrow> (string \<Rightarrow> int option) \<Rightarrow> (nat \<Rightarrow> http_result) \<Rightarrow> string \<Rightarrow> string
     \<Rightarrow> request list \<Rightarrow> json \<Rightarrow> int \<Rightarrow> int \<Rightarrow> request list \<times> (error + json) option" where
  "files_loop 0 parse_int answers url token log items page total_pages =
     (if page \<noteq> total_pages then (log, None) else (log, Some (Inr items)))"
| "files_loop (Suc fuel) parse_int answers url token log items page total_pages =
     (if page \<noteq> total_pages then
        (let next_page = page + 1;
             url_page = url @ ''?page='' @ str_of_int next_page;
             req = \<lparr>req_method = GET, req_url = url_page, req_headers = [(''Authorization'', token)],
                    req_body = NoBody, req_stream = False\<rparr>
         in case raise_or (raise_or (answers (length log)) response_json)
                   (files_next parse_int items) of
              Inl e \<Rightarrow> (log @ [req], Some (Inl e))
            | Inr (items', page', total_pages') \<Rightarrow>
                files_loop fuel parse_int answers url token (log @ [req]) items' page' total_pages')
      else (log, Some (Inr items)))"

definition available_files ::
  "nat \<Rightarrow> (string \<Rightarrow> int option) \<Rightarrow> (nat \<Rightarrow> http_result) \<Rightarrow> string \<Rightarrow> (string \<rightharpoonup> string)
     \<Rightarrow> request list \<times> (error + json) option" where
  "available_files fuel parse_int answers base_url tokens =
     (case tokens ''access_token'' of
        None \<Rightarrow> ([], Some (Inl (KeyError ''access_token'')))
      | Some t \<Rightarrow>
          (let token = ''Bearer '' @ t;
               url = ''https://moveit.'' @ base_url @ ''/api/v1/files'';
               req = \<lparr>req_method = GET, req_url = url, req_headers = [(''Authorization'', token)],
                      req_body = NoBody, req_stream = False\<rparr>
           in case raise_or (raise_or (answers 0) response_json) (\<lambda>files.
                   raise_or (py_getitem files ''items'') (\<lambda>items.
                   raise_or (raise_or (paging_field files ''page'') (py_int parse_int)) (\<lambda>page.
                   raise_or (raise_or (paging_field files ''totalPages'') (py_int parse_int)) (\<lambda>total_pages.
                   Inr (items, page, total_pages))))) of
                Inl e \<Rightarrow> ([req], Some (Inl e))
              | Inr (items, page, total_pages) \<Rightarrow>
                  files_loop fuel parse_int answers url token [req] items page total_pages))"

subsection \<open>available_folders (lines 95-131)\<close>

text \<open>
  Lines 126-129: as in \<open>files_next\<close>, but \<open>page\<close> and \<open>total_pages\<close> are taken from the
  response as they are, with no \<open>int(...)\<close>.
\<close>

definition folders_next :: "json \<Rightarrow> json \<Rightarrow> error + json \<times> json \<times> json" where
  "folders_next items folders =
     raise_or (extend_items items folders) (\<lambda>items.
     raise_or (paging_field folders ''page'') (\<lambda>page.
     raise_or (paging_field folders ''totalPages'') (\<lambda>total_pages.
     Inr (items, page, total_pages))))"

text \<open>
  The loop of lines 115-131.  \<open>page\<close> and \<open>total_pages\<close> hold integers on entry and whatever
  the last response held afterwards: the guard is Python's \<open>!=\<close> on those values, and
  \<open>page + 1\<close> can raise before the request is sent.
\<close>

fun folders_loop ::
  "nat \<Rightarrow> (nat \<Rightarrow> http_result) \<Rightarrow> string \<Rightarrow> string
     \<Rightarrow> request list \<Rightarrow> json \<Rightarrow> json \<Rightarrow> json \<Rightarrow> request list \<times> (error + json) option" where
  "folders_loop 0 answers url token log items page total_pages =
     (if \<not> py_eq page total_pages then (log, None) else (log, Some (Inr items)))"
| "folders_loop (Suc fuel) answers url token log items page total_pages =
     (if \<not> py_eq page total_pages then
        (case py_add1 page of
           Inl e \<Rightarrow> (log, Some (Inl e))
         | Inr next_page \<Rightarrow>
             (let url_page = url @ ''?page='' @ str_of_int next_page;
                  req = \<lparr>req_method = GET, req_url = url_page, req_headers = [(''Authorization'', token)],
                         req_body = NoBody, req_stream = False\<rparr>
              in case raise_or (raise_or (answers (length log)) response_json)
                        (folders_next items) of
                   Inl e \<Rightarrow> (log @ [req], Some (Inl e))
                 | Inr (items', page', total_pages') \<Rightarrow>
                     folders_loop fuel answers url token (log @ [req]) items' page' total_pages'))
      else (log, Some (Inr items)))"

definition available_folders ::
  "nat \<Rightarrow> (string \<Rightarrow> int option) \<Rightarrow> (nat \<Rightarrow> http_result) \<Rightarrow> string \<Rightarrow> (string \<rightharpoonup> string)
     \<Rightarrow> request list \<times> (error + json) option" where
  "available_folders fuel parse_int answers base_url tokens =
     (case tokens ''access_token'' of
        None \<Rightarrow> ([], Some (Inl (KeyError ''access_token'')))
      | Some t \<Rightarrow>
          (let token = ''Bearer '' @ t;
               url = ''https://moveit.'' @ base_url @ ''/api/v1/folders'';
               req = \<lparr>req_method = GET, req_url = url, req_headers = [(''Authorization'', token)],
                      req_body = NoBody, req_stream = False\<rparr>
           in case raise_or (raise_or (answers 0) response_json) (\<lambda>folders.
                   raise_or (py_getitem folders ''items'') (\<lambda>items.
                   raise_or (raise_or (paging_field folders ''page'') (py_int parse_int)) (\<lambda>page.
                   raise_or (raise_or (paging_field folders ''totalPages'') (py_int parse_int)) (\<lambda>total_pages.
                   Inr (items, page, total_pages))))) of
                Inl e \<Rightarrow> ([req], Some (Inl e))
              | Inr (items, page, total_pages) \<Rightarrow>
                  folders_loop fuel answers url token [req] items (JInt page) (JInt total_pages)))"

subsection \<open>The local file system\<close>

text \<open>A map from the paths of the regular files to their bytes.\<close>

type_synonym filesystem = "string \<rightharpoonup> string"

definition file_bytes :: "filesystem \<Rightarrow> string \<Rightarrow> error + string" where
  "file_bytes fs path =
     (case fs path of None \<Rightarrow> Inl (FileNotFoundError path) | Some bytes \<Rightarrow> Inr bytes)"

text \<open>\<open>os.path.getsize\<close> and \<open>os.path.basename\<close> (POSIX).\<close>

definition getsize :: "filesystem \<Rightarrow> string \<Rightarrow> error + int" where
  "getsize fs path =
     (case file_bytes fs path of Inl e \<Rightarrow> Inl e | Inr bytes \<Rightarrow> Inr (int (length bytes)))"

definition basename :: "string \<Rightarrow> string" where
  "basename path = rev (takeWhile (\<lambda>c. c \<noteq> CHR ''/'') (rev path))"

subsection \<open>read_move_it_file (lines 23-52)\<close>

text \<open>
  The two pandas readers the function calls are parameters; each takes the separator
  (the comma is the default of \<open>pd.read_csv\<close>) or the sheet and the bytes of the file it is
  pointed at, and returns a dataset or the exception it raised.
\<close>

record ('s, 'd) pandas =
  read_csv :: "string \<Rightarrow> string \<Rightarrow> error + 'd"
  read_excel :: "'s \<Rightarrow> string \<Rightarrow> error + 'd"

text \<open>
  \<open>tmp_name\<close> is the name \<open>tempfile.NamedTemporaryFile(delete=False)\<close> chose; the call
  creates the file, empty.  The local \<open>data\<close> is bound by one of the three branches of
  lines 42-47 or by none: \<open>None\<close> below is the unbound local, which \<open>return data\<close> (line 52)
  turns into an \<open>UnboundLocalError\<close>, after \<open>os.remove\<close> (line 50) has run.
\<close>

definition read_move_it_file ::
  "('s, 'd) pandas \<Rightarrow> string \<Rightarrow> filesystem \<Rightarrow> http_result \<Rightarrow> string \<Rightarrow> (string \<rightharpoonup> string)
     \<Rightarrow> string \<Rightarrow> string \<Rightarrow> 's \<Rightarrow> filesystem \<times> request list \<times> (error + 'd)" where
  "read_move_it_file pd tmp_name fs answer base_url tokens file_id file_type sheet_download =
     (let fs1 = fs(tmp_name \<mapsto> [])
      in case tokens ''access_token'' of
           None \<Rightarrow> (fs1, [], Inl (KeyError ''access_token''))
         | Some token \<Rightarrow>
             (let url = ''https://moveit.'' @ base_url @ ''/api/v1/files/'' @ file_id @ ''/download'';
                  c_type = (if file_type = ''excel''
                            then ''application/vnd.openxmlformats-officedocument.spreadsheetml.sheet''
                            else ''text/csv'');
                  headers = [(''Authorization'', ''Bearer '' @ token)];
                  req = \<lparr>req_method = GET, req_url = url, req_headers = headers, req_body = NoBody, req_stream = True\<rparr>
              in case answer of
                   Inl e \<Rightarrow> (fs1, [req], Inl e)
                 | Inr response \<Rightarrow>
                     (let fs2 = fs1(tmp_name \<mapsto> content response)
                      in case file_bytes fs2 tmp_name of
                           Inl e \<Rightarrow> (fs2, [req], Inl e)
                         | Inr bytes \<Rightarrow>
                             (case (if file_type = ''csv''
                                    then map_sum id Some (read_csv pd '','' bytes)
                                    else if file_type = ''txt''
                                    then map_sum id Some (read_csv pd [CHR 0x09] bytes)
                                    else if file_type = ''excel''
                                    then map_sum id Some (read_excel pd sheet_download bytes)
                                    else Inr None) of
                                Inl e \<Rightarrow> (fs2, [req], Inl e)
                              | Inr data \<Rightarrow>
                                  (let fs3 = fs2(tmp_name := None)
                                   in case data of
                                        None \<Rightarrow> (fs3, [req], Inl (UnboundLocalError ''data''))
                                      | Some d \<Rightarrow> (fs3, [req], Inr d))))))"

subsection \<open>upload_move_it_file (lines 134-167)\<close>

text \<open>
  \<open>chunked\<close> is \<open>None\<close> or a truth value.  The \<open>import requests\<close> of lines 136-139 cannot
  fail in a module that imported it at line 1.  The local \<open>size\<close> is \<open>fsize\<close> here.  The
  function returns nothing on success.
\<close>

definition upload_move_it_file ::
  "filesystem \<Rightarrow> http_result \<Rightarrow> string \<Rightarrow> (string \<rightharpoonup> string) \<Rightarrow> string \<Rightarrow> string \<Rightarrow> string
     \<Rightarrow> bool option \<Rightarrow> request list \<times> (error + unit)" where
  "upload_move_it_file fs answer base_url tokens folder_id file_path file_type chunked =
     (let chunked = (case chunked of None \<Rightarrow> False | Some b \<Rightarrow> b)
      in case tokens ''access_token'' of
           None \<Rightarrow> ([], Inl (KeyError ''access_token''))
         | Some t \<Rightarrow>
             (let token = ''Bearer '' @ t;
                  url = ''https://moveit.'' @ base_url @ ''/api/v1/folders/'' @ folder_id @ ''/files''
              in case getsize fs file_path of
                   Inl e \<Rightarrow> ([], Inl e)
                 | Inr fsize \<Rightarrow>
                     (let headers = [(''Authorization'', token),
                                     (''accept'', ''application/json''),
                                     (''Content-Type'', ''multipart/form-data'')];
                          headers = (if fsize \<ge> 40000000 \<or> chunked
                                     then AList.update ''Transfer-Encoding'' ''chunked'' headers
                                     else headers)
                      in case file_bytes fs file_path of
                           Inl e \<Rightarrow> ([], Inl e)
                         | Inr f \<Rightarrow>
                             (let req = \<lparr>req_method = POST, req_url = url, req_headers = headers,
                                         req_body = Files ''file'' (basename file_path) f file_type,
                                         req_stream = False\<rparr>
                              in case answer of
                                   Inl e \<Rightarrow> ([req], Inl e)
                                 | Inr response \<Rightarrow>
                                     if status_code response \<notin> set [201, 200]
                                     then ([req], Inl (Exception (status_code response)))
                                     else ([req], Inr ())))))"

subsection \<open>Page envelopes\<close>

text \<open>
  The hypotheses of the pagination theorems.  \<open>is_page answer its p t\<close>: the answer is a
  response whose body decodes to a page envelope, with the list \<open>its\<close> under \<open>items\<close> and
  the integers \<open>p\<close> and \<open>t\<close> under \<open>paging.page\<close> and \<open>paging.totalPages\<close>.
\<close>

definition is_page :: "http_result \<Rightarrow> json list \<Rightarrow> int \<Rightarrow> int \<Rightarrow> bool" where
  "is_page answer its p t =
     (case raise_or answer response_json of
        Inl e \<Rightarrow> False
      | Inr j \<Rightarrow> py_getitem j ''items'' = Inr (JArr its)
               \<and> paging_field j ''page'' = Inr (JInt p)
               \<and> paging_field j ''totalPages'' = Inr (JInt t))"

text \<open>A response that holds such an envelope and nothing else, for the examples.\<close>

definition page_response :: "json list \<Rightarrow> int \<Rightarrow> int \<Rightarrow> http_result" where
  "page_response its p t =
     Inr \<lparr>status_code = 200, reason = ''OK'', resp_url = [],
          json_body = Some (JObj [(''items'', JArr its),
                                  (''paging'', JObj [(''page'', JInt p), (''totalPages'', JInt t)])]),
          content = []\<rparr>"

text \<open>
  \<open>int_paging answer\<close>: whatever the answer holds under \<open>paging.page\<close> and
  \<open>paging.totalPages\<close> is an integer (an answer that is an exception, has no JSON body or
  lacks the fields holds nothing there).
\<close>

fun int_or_raised :: "error + json \<Rightarrow> bool" where
  "int_or_raised (Inl e) = True"
| "int_or_raised (Inr (JInt n)) = True"
| "int_or_raised (Inr _) = False"

definition int_paging :: "http_result \<Rightarrow> bool" where
  "int_paging answer =
     (case raise_or answer response_json of
        Inl e \<Rightarrow> True
      | Inr j \<Rightarrow> int_or_raised (paging_field j ''page'')
               \<and> int_or_raised (paging_field j ''totalPages''))"

section \<open>Properties\<close>

subsection \<open>Authentication\<close>

lemma raise_for_status_error:
  "400 \<le> status_code r \<Longrightarrow> status_code r < 600 \<Longrightarrow> \<exists>msg. raise_for_status r = Inl msg"
  by (simp add: raise_for_status_def)

lemma raise_for_status_ok:
  "status_code r < 400 \<or> 600 \<le> status_code r \<Longrightarrow> raise_for_status r = Inr ()"
  by (auto simp: raise_for_status_def)

text \<open>
  C2, as the specification states it, fails: a status outside 200-299 need not produce the
  error string.  A 304 answer passes \<open>raise_for_status\<close>; with an empty body
  \<open>response.json()\<close> then raises, and with a JSON body that body is returned as if it were
  the token mapping.
\<close>

theorem auth_move_it_304_counterexample:
  "snd (auth_move_it
          (Inr \<lparr>status_code = 304, reason = ''Not Modified'',
                resp_url = ''https://moveit.example.org/api/v1/token'',
                json_body = None, content = []\<rparr>)
          ''example.org'' ''{}'') = Inl JSONDecodeError
   \<and> snd (auth_move_it
          (Inr \<lparr>status_code = 304, reason = ''Not Modified'',
                resp_url = ''https://moveit.example.org/api/v1/token'',
                json_body = Some (JObj []), content = ''{}''\<rparr>)
          ''example.org'' ''{}'') = Inr (JObj [])"
  by (simp add: auth_move_it_def raise_for_status_def)

text \<open>
  C2, amended: for every answer to the authentication POST whose status lies in 400-599,
  \<open>auth_move_it\<close> returns the string \<open>"Error: "\<close> followed by the message of the HTTP error
  (status, error class, reason and URL) and does not raise; for every answer with any other
  status, every 2xx among them, whose body decodes as JSON, it returns the decoded value
  unchanged.
\<close>

theorem auth_move_it_by_status:
  "(400 \<le> status_code r \<and> status_code r < 600 \<longrightarrow>
      snd (auth_move_it (Inr r) base_url payload) =
        Inr (JStr (''Error: '' @ str_of_int (status_code r)
                   @ (if status_code r < 500 then '' Client Error: '' else '' Server Error: '')
                   @ reason r @ '' for url: '' @ resp_url r)))
   \<and> (\<not> (400 \<le> status_code r \<and> status_code r < 600) \<and> json_body r = Some tokens \<longrightarrow>
      snd (auth_move_it (Inr r) base_url payload) = Inr tokens)"
  by (simp add: auth_move_it_def raise_for_status_def)

theorem auth_move_it_by_status_witness:
  "snd (auth_move_it
          (Inr \<lparr>status_code = 401, reason = ''Unauthorized'',
                resp_url = ''https://moveit.example.org/api/v1/token'',
                json_body = None, content = []\<rparr>)
          ''example.org'' ''{}'')
     = Inr (JStr ''Error: 401 Client Error: Unauthorized for url: https://moveit.example.org/api/v1/token'')
   \<and> snd (auth_move_it
          (Inr \<lparr>status_code = 200, reason = ''OK'',
                resp_url = ''https://moveit.example.org/api/v1/token'',
                json_body = Some (JObj [(''access_token'', JStr ''T'')]), content = []\<rparr>)
          ''example.org'' ''{}'')
     = Inr (JObj [(''access_token'', JStr ''T'')])"
  using
    auth_move_it_by_status [of "\<lparr>status_code = 401, reason = ''Unauthorized'',
                resp_url = ''https://moveit.example.org/api/v1/token'',
                json_body = None, content = []\<rparr>" "''example.org''" "''{}''" JNull]
    auth_move_it_by_status [of "\<lparr>status_code = 200, reason = ''OK'',
                resp_url = ''https://moveit.example.org/api/v1/token'',
                json_body = Some (JObj [(''access_token'', JStr ''T'')]), content = []\<rparr>"
                "''example.org''" "''{}''" "JObj [(''access_token'', JStr ''T'')]"]
  by (simp add: str_of_int_def digits.simps)

subsection \<open>Upload\<close>

text \<open>
  C4: when the token mapping holds \<open>access_token\<close> and the local file exists, the upload sends
  one request; if the file has 40,000,000 bytes or more, or \<open>chunked\<close> is true, the headers
  of that request hold \<open>Transfer-Encoding: chunked\<close>.  A file of 50,000,000 bytes gets the
  header under every value of \<open>chunked\<close>.
\<close>

theorem upload_chunked_header:
  assumes "tokens ''access_token'' = Some t" and "fs file_path = Some bytes"
  shows "(40000000 \<le> int (length bytes) \<or> chunked = Some True \<longrightarrow>
           (\<exists>req. fst (upload_move_it_file fs answer base_url tokens folder_id file_path file_type chunked) = [req]
                \<and> map_of (req_headers req) ''Transfer-Encoding'' = Some ''chunked''))
       \<and> (length bytes = 50000000 \<longrightarrow>
           (\<forall>c. \<exists>req. fst (upload_move_it_file fs answer base_url tokens folder_id file_path file_type c) = [req]
                \<and> map_of (req_headers req) ''Transfer-Encoding'' = Some ''chunked''))"
  using assms
  by (auto simp: upload_move_it_file_def getsize_def file_bytes_def Let_def
           split: sum.splits option.splits)

theorem upload_chunked_header_witness:
  "\<exists>req. fst (upload_move_it_file [''/data/big.csv'' \<mapsto> replicate 50000000 (CHR ''a'')]
                 (Inl ConnectionError) ''example.org'' [''access_token'' \<mapsto> ''T''] ''42''
                 ''/data/big.csv'' ''text/csv'' (Some False)) = [req]
        \<and> map_of (req_headers req) ''Transfer-Encoding'' = Some ''chunked''"
  using upload_chunked_header [of "[''access_token'' \<mapsto> ''T'']" "''T''"
          "[''/data/big.csv'' \<mapsto> replicate 50000000 (CHR ''a'')]" "''/data/big.csv''"
          "replicate 50000000 (CHR ''a'')" "Some False" "Inl ConnectionError" "''example.org''"
          "''42''" "''text/csv''"]
  by simp

text \<open>
  C5: when the upload request is sent and answered, the function returns normally, with
  no value, if the status is 200 or 201, and otherwise raises \<open>Exception(status_code)\<close>,
  whose only argument is the numeric status.
\<close>

theorem upload_status_outcome:
  assumes "tokens ''access_token'' = Some t" and "fs file_path = Some bytes"
  shows "snd (upload_move_it_file fs (Inr r) base_url tokens folder_id file_path file_type chunked)
           = (if status_code r = 200 \<or> status_code r = 201 then Inr ()
              else Inl (Exception (status_code r)))"
  using assms
  by (auto simp: upload_move_it_file_def getsize_def file_bytes_def Let_def
           split: sum.splits option.splits)

theorem upload_status_outcome_witness:
  "snd (upload_move_it_file [''/data/a.csv'' \<mapsto> ''a,b'']
          (Inr \<lparr>status_code = 404, reason = ''Not Found'', resp_url = [],
                json_body = None, content = []\<rparr>)
          ''example.org'' [''access_token'' \<mapsto> ''T''] ''42'' ''/data/a.csv'' ''text/csv'' None)
     = Inl (Exception 404)
   \<and> snd (upload_move_it_file [''/data/a.csv'' \<mapsto> ''a,b'']
          (Inr \<lparr>status_code = 201, reason = ''Created'', resp_url = [],
                json_body = None, content = []\<rparr>)
          ''example.org'' [''access_token'' \<mapsto> ''T''] ''42'' ''/data/a.csv'' ''text/csv'' None)
     = Inr ()"
  using
    upload_status_outcome [of "[''access_token'' \<mapsto> ''T'']" "''T''" "[''/data/a.csv'' \<mapsto> ''a,b'']"
      "''/data/a.csv''" "''a,b''"
      "\<lparr>status_code = 404, reason = ''Not Found'', resp_url = [], json_body = None, content = []\<rparr>"
      "''example.org''" "''42''" "''text/csv''" None]
    upload_status_outcome [of "[''access_token'' \<mapsto> ''T'']" "''T''" "[''/data/a.csv'' \<mapsto> ''a,b'']"
      "''/data/a.csv''" "''a,b''"
      "\<lparr>status_code = 201, reason = ''Created'', resp_url = [], json_body = None, content = []\<rparr>"
      "''example.org''" "''42''" "''text/csv''" None]
  by simp

subsection \<open>Download\<close>

text \<open>
  C6: a download with a format other than \<open>csv\<close>, \<open>txt\<close> and \<open>excel\<close> is meant to fall
  through in silence, with no dataset and no error.  The code does not: the chain of
  lines 42-47 has no \<open>else\<close>, so for the format \<open>json\<close> no branch binds \<open>data\<close>, the
  transient file is removed, and \<open>return data\<close> raises an \<open>UnboundLocalError\<close>.
\<close>

theorem read_move_it_file_json_format:
  "read_move_it_file \<lparr>read_csv = (\<lambda>sep bytes. Inr bytes), read_excel = (\<lambda>(sheet::unit) bytes. Inr bytes)\<rparr>
     ''/tmp/tmpabc'' Map.empty
     (Inr \<lparr>status_code = 200, reason = ''OK'', resp_url = [], json_body = None, content = ''[1, 2]''\<rparr>)
     ''example.org'' [''access_token'' \<mapsto> ''T''] ''17'' ''json'' ()
   = (Map.empty,
      [\<lparr>req_method = GET, req_url = ''https://moveit.example.org/api/v1/files/17/download'',
        req_headers = [(''Authorization'', ''Bearer T'')], req_body = NoBody, req_stream = True\<rparr>],
      Inl (UnboundLocalError ''data''))"
  by (simp add: read_move_it_file_def file_bytes_def Let_def)

text \<open>
  The same holds for every format outside the three, once the token is read and the
  request answered.
\<close>

lemma read_move_it_file_unsupported_format:
  assumes "tokens ''access_token'' = Some t"
    and "file_type \<noteq> ''csv''" and "file_type \<noteq> ''txt''" and "file_type \<noteq> ''excel''"
  shows "read_move_it_file pd tmp_name fs (Inr r) base_url tokens file_id file_type sheet_download
           = (fs(tmp_name := None),
              [\<lparr>req_method = GET,
                req_url = ''https://moveit.'' @ base_url @ ''/api/v1/files/'' @ file_id @ ''/download'',
                req_headers = [(''Authorization'', ''Bearer '' @ t)], req_body = NoBody, req_stream = True\<rparr>],
              Inl (UnboundLocalError ''data''))"
  using assms by (simp add: read_move_it_file_def file_bytes_def Let_def)

text \<open>
  C9: for every download whose format is \<open>csv\<close>, \<open>txt\<close> or \<open>excel\<close> and whose reader returns
  a dataset \<open>d\<close>, the function returns \<open>d\<close> and leaves the file system as it found it but
  for the transient file, which is gone.
\<close>

theorem read_move_it_file_removes_tmp:
  assumes "tokens ''access_token'' = Some t"
    and "(file_type = ''csv'' \<and> read_csv pd '','' (content r) = Inr d)
       \<or> (file_type = ''txt'' \<and> read_csv pd [CHR 0x09] (content r) = Inr d)
       \<or> (file_type = ''excel'' \<and> read_excel pd sheet_download (content r) = Inr d)"
  shows "fst (read_move_it_file pd tmp_name fs (Inr r) base_url tokens file_id file_type sheet_download)
           = fs(tmp_name := None)
       \<and> snd (snd (read_move_it_file pd tmp_name fs (Inr r) base_url tokens file_id file_type sheet_download))
           = Inr d"
  using assms by (auto simp: read_move_it_file_def file_bytes_def Let_def)

theorem read_move_it_file_removes_tmp_witness:
  "fst (read_move_it_file \<lparr>read_csv = (\<lambda>sep bytes. Inr (sep, bytes)), read_excel = (\<lambda>(sheet::unit) bytes. Inl ParserError)\<rparr>
     ''/tmp/tmpabc'' [''/data/a.csv'' \<mapsto> ''a,b'']
     (Inr \<lparr>status_code = 200, reason = ''OK'', resp_url = [], json_body = None, content = ''a,b''\<rparr>)
     ''example.org'' [''access_token'' \<mapsto> ''T''] ''17'' ''csv'' ()) ''/tmp/tmpabc'' = None
   \<and> snd (snd (read_move_it_file \<lparr>read_csv = (\<lambda>sep bytes. Inr (sep, bytes)), read_excel = (\<lambda>(sheet::unit) bytes. Inl ParserError)\<rparr>
     ''/tmp/tmpabc'' [''/data/a.csv'' \<mapsto> ''a,b'']
     (Inr \<lparr>status_code = 200, reason = ''OK'', resp_url = [], json_body = None, content = ''a,b''\<rparr>)
     ''example.org'' [''access_token'' \<mapsto> ''T''] ''17'' ''csv'' ())) = Inr ('','', ''a,b'')"
  using read_move_it_file_removes_tmp [of "[''access_token'' \<mapsto> ''T'']" "''T''" "''csv''"
          "\<lparr>read_csv = (\<lambda>sep bytes. Inr (sep, bytes)), read_excel = (\<lambda>(sheet::unit) bytes. Inl ParserError)\<rparr>"
          "\<lparr>status_code = 200, reason = ''OK'', resp_url = [], json_body = None, content = ''a,b''\<rparr>"
          "('','', ''a,b'')" "()" "''/tmp/tmpabc''" "[''/data/a.csv'' \<mapsto> ''a,b'']" "''example.org''" "''17''"]
  by simp

subsection \<open>One step of the pagination loops\<close>

lemma is_page_page_response: "is_page (page_response its p t) its p t"
  by (simp add: is_page_def page_response_def raise_or_def response_json_def paging_field_def)

lemma first_page:
  "is_page answer its p t \<Longrightarrow>
   raise_or (raise_or answer response_json) (\<lambda>files.
     raise_or (py_getitem files ''items'') (\<lambda>items.
     raise_or (raise_or (paging_field files ''page'') (py_int parse_int)) (\<lambda>page.
     raise_or (raise_or (paging_field files ''totalPages'') (py_int parse_int)) (\<lambda>total_pages.
     Inr (items, page, total_pages))))) = Inr (JArr its, p, t)"
  by (auto simp: is_page_def raise_or_def split: sum.splits)

lemma files_next_page:
  "is_page answer its p t \<Longrightarrow>
   raise_or (raise_or answer response_json) (files_next parse_int (JArr acc)) = Inr (JArr (acc @ its), p, t)"
  by (auto simp: is_page_def raise_or_def files_next_def extend_items_def split: sum.splits)

lemma folders_next_page:
  "is_page answer its p t \<Longrightarrow>
   raise_or (raise_or answer response_json) (folders_next (JArr acc)) = Inr (JArr (acc @ its), JInt p, JInt t)"
  by (auto simp: is_page_def raise_or_def folders_next_def extend_items_def split: sum.splits)

text \<open>
  Fuel is only a bound: once a loop has returned or raised, more fuel changes nothing.
\<close>

lemma files_loop_fuel_mono:
  "snd (files_loop fuel parse_int answers url token log items page total_pages) = Some r \<Longrightarrow>
   files_loop (fuel + d) parse_int answers url token log items page total_pages
     = files_loop fuel parse_int answers url token log items page total_pages"
proof (induction fuel arbitrary: log items page total_pages)
  case 0
  then show ?case by (cases d) (auto split: if_splits)
next
  case (Suc fuel)
  then show ?case by (auto simp: Let_def split: if_splits sum.splits prod.splits)
qed

lemma folders_loop_fuel_mono:
  "snd (folders_loop fuel answers url token log items page total_pages) = Some r \<Longrightarrow>
   folders_loop (fuel + d) answers url token log items page total_pages
     = folders_loop fuel answers url token log items page total_pages"
proof (induction fuel arbitrary: log items page total_pages)
  case 0
  then show ?case by (cases d) (auto split: if_splits)
next
  case (Suc fuel)
  then show ?case by (auto simp: Let_def split: if_splits sum.splits prod.splits)
qed

subsection \<open>Concatenation of the pages\<close>

lemma files_loop_pages:
  assumes "\<forall>i<length pages. is_page (answers i) (pages ! i) (int i + 1) (int (length pages))"
    and "length log = k" and "1 \<le> k" and "k \<le> length pages" and "length pages - k \<le> fuel"
  shows "snd (files_loop fuel parse_int answers url token log (JArr acc) (int k) (int (length pages)))
           = Some (Inr (JArr (acc @ concat (drop k pages))))"
  using assms
proof (induction fuel arbitrary: k log acc)
  case 0
  then show ?case by simp
next
  case (Suc fuel)
  show ?case
  proof (cases "k = length pages")
    case True
    then show ?thesis by simp
  next
    case False
    with Suc.prems have lt: "k < length pages" by simp
    with Suc.prems have pg: "is_page (answers (length log)) (pages ! k) (int k + 1) (int (length pages))"
      by simp
    have step: "snd (files_loop fuel parse_int answers url token
                  (log @ [\<lparr>req_method = GET, req_url = url @ ''?page='' @ str_of_int (int k + 1),
                           req_headers = [(''Authorization'', token)], req_body = NoBody, req_stream = False\<rparr>])
                  (JArr (acc @ pages ! k)) (int (Suc k)) (int (length pages)))
           = Some (Inr (JArr ((acc @ pages ! k) @ concat (drop (Suc k) pages))))"
      using Suc.prems lt by (intro Suc.IH) auto
    have "drop k pages = pages ! k # drop (Suc k) pages"
      using lt by (simp add: Cons_nth_drop_Suc)
    with step False show ?thesis
      by (simp add: Let_def files_next_page [OF pg] add.commute)
  qed
qed

lemma folders_loop_pages:
  assumes "\<forall>i<length pages. is_page (answers i) (pages ! i) (int i + 1) (int (length pages))"
    and "length log = k" and "1 \<le> k" and "k \<le> length pages" and "length pages - k \<le> fuel"
  shows "snd (folders_loop fuel answers url token log (JArr acc) (JInt (int k)) (JInt (int (length pages))))
           = Some (Inr (JArr (acc @ concat (drop k pages))))"
  using assms
proof (induction fuel arbitrary: k log acc)
  case 0
  then show ?case by simp
next
  case (Suc fuel)
  show ?case
  proof (cases "k = length pages")
    case True
    then show ?thesis by simp
  next
    case False
    with Suc.prems have lt: "k < length pages" by simp
    with Suc.prems have pg: "is_page (answers (length log)) (pages ! k) (int k + 1) (int (length pages))"
      by simp
    have step: "snd (folders_loop fuel answers url token
                  (log @ [\<lparr>req_method = GET, req_url = url @ ''?page='' @ str_of_int (int k + 1),
                           req_headers = [(''Authorization'', token)], req_body = NoBody, req_stream = False\<rparr>])
                  (JArr (acc @ pages ! k)) (JInt (int (Suc k))) (JInt (int (length pages))))
           = Some (Inr (JArr ((acc @ pages ! k) @ concat (drop (Suc k) pages))))"
      using Suc.prems lt by (intro Suc.IH) auto
    have "drop k pages = pages ! k # drop (Suc k) pages"
      using lt by (simp add: Cons_nth_drop_Suc)
    with step False show ?thesis
      by (simp add: Let_def folders_next_page [OF pg] add.commute)
  qed
qed

lemma listers_pages:
  assumes "tokens ''access_token'' = Some tk"
    and "pages \<noteq> []"
    and "\<forall>i<length pages. is_page (answers i) (pages ! i) (int i + 1) (int (length pages))"
    and "length pages - 1 \<le> fuel"
  shows "snd (available_files fuel parse_int answers base_url tokens) = Some (Inr (JArr (concat pages)))
       \<and> snd (available_folders fuel parse_int answers base_url tokens) = Some (Inr (JArr (concat pages)))"
proof -
  from assms(2) obtain x xs where pages: "pages = x # xs" by (cases pages) auto
  from assms(2,3) have p0: "is_page (answers 0) (pages ! 0) 1 (int (length pages))"
    by (cases pages) auto
  have cc: "pages ! 0 @ concat (drop (Suc 0) pages) = concat pages"
    by (simp add: pages)
  have "snd (files_loop fuel parse_int answers (''https://moveit.'' @ base_url @ ''/api/v1/files'')
               (''Bearer '' @ tk)
               [\<lparr>req_method = GET, req_url = ''https://moveit.'' @ base_url @ ''/api/v1/files'',
                 req_headers = [(''Authorization'', ''Bearer '' @ tk)], req_body = NoBody, req_stream = False\<rparr>]
               (JArr (pages ! 0)) (int 1) (int (length pages)))
          = Some (Inr (JArr (pages ! 0 @ concat (drop 1 pages))))"
    using assms by (intro files_loop_pages) (auto simp: Suc_le_eq)
  then have files: "snd (available_files fuel parse_int answers base_url tokens) = Some (Inr (JArr (concat pages)))"
    using assms(1) by (simp add: available_files_def Let_def first_page [OF p0] cc)
  have "snd (folders_loop fuel answers (''https://moveit.'' @ base_url @ ''/api/v1/folders'')
               (''Bearer '' @ tk)
               [\<lparr>req_method = GET, req_url = ''https://moveit.'' @ base_url @ ''/api/v1/folders'',
                 req_headers = [(''Authorization'', ''Bearer '' @ tk)], req_body = NoBody, req_stream = False\<rparr>]
               (JArr (pages ! 0)) (JInt (int 1)) (JInt (int (length pages))))
          = Some (Inr (JArr (pages ! 0 @ concat (drop 1 pages))))"
    using assms by (intro folders_loop_pages) (auto simp: Suc_le_eq)
  then have "snd (available_folders fuel parse_int answers base_url tokens) = Some (Inr (JArr (concat pages)))"
    using assms(1) by (simp add: available_folders_def Let_def first_page [OF p0] cc)
  with files show ?thesis by simp
qed

text \<open>
  C1: let the answers to the requests of a lister be the pages \<open>1, ..., n\<close> of \<open>n\<close>: the
  \<open>i\<close>-th answer holds the items \<open>pages ! i\<close>, \<open>paging.page = i + 1\<close> and
  \<open>paging.totalPages = n\<close>.  Then \<open>available_files\<close> and \<open>available_folders\<close> return the
  concatenation of the pages' items in page order, after \<open>n - 1\<close> iterations of the loop.
  For \<open>n = 1\<close> that is the single page's items, unchanged, with no iteration at all.
\<close>

theorem listers_concat_pages:
  assumes "tokens ''access_token'' = Some tk"
    and "pages \<noteq> []"
    and "\<forall>i<length pages. is_page (answers i) (pages ! i) (int i + 1) (int (length pages))"
    and "length pages - 1 \<le> fuel"
  shows "snd (available_files fuel parse_int answers base_url tokens) = Some (Inr (JArr (concat pages)))
       \<and> snd (available_folders fuel parse_int answers base_url tokens) = Some (Inr (JArr (concat pages)))
       \<and> (length pages = 1 \<longrightarrow>
            snd (available_files 0 parse_int answers base_url tokens) = Some (Inr (JArr (pages ! 0)))
          \<and> snd (available_folders 0 parse_int answers base_url tokens) = Some (Inr (JArr (pages ! 0))))"
proof -
  have single: "concat pages = pages ! 0" if "length pages = 1"
    using that by (cases pages) auto
  have run: "snd (available_files fuel parse_int answers base_url tokens) = Some (Inr (JArr (concat pages)))
       \<and> snd (available_folders fuel parse_int answers base_url tokens) = Some (Inr (JArr (concat pages)))"
    by (rule listers_pages [where tk = tk]) (use assms in simp_all)
  have "snd (available_files 0 parse_int answers base_url tokens) = Some (Inr (JArr (pages ! 0)))
       \<and> snd (available_folders 0 parse_int answers base_url tokens) = Some (Inr (JArr (pages ! 0)))"
    if one: "length pages = 1"
    unfolding single [OF one, symmetric]
    by (rule listers_pages [where tk = tk]) (use assms one in simp_all)
  with run show ?thesis by simp
qed

theorem listers_concat_pages_witness:
  "snd (available_files 2 (\<lambda>s. None)
          (\<lambda>i. if i = 0 then page_response [JStr ''A'', JStr ''B''] 1 3
                else if i = 1 then page_response [JStr ''C'', JStr ''D''] 2 3
                else page_response [JStr ''E'', JStr ''F''] 3 3)
          ''example.org'' [''access_token'' \<mapsto> ''T''])
     = Some (Inr (JArr [JStr ''A'', JStr ''B'', JStr ''C'', JStr ''D'', JStr ''E'', JStr ''F'']))
   \<and> snd (available_folders 0 (\<lambda>s. None) (\<lambda>i. page_response [JStr ''A'', JStr ''B''] 1 1)
          ''example.org'' [''access_token'' \<mapsto> ''T''])
     = Some (Inr (JArr [JStr ''A'', JStr ''B'']))"
proof -
  let ?answers = "\<lambda>i::nat. if i = 0 then page_response [JStr ''A'', JStr ''B''] 1 3
                else if i = 1 then page_response [JStr ''C'', JStr ''D''] 2 3
                else page_response [JStr ''E'', JStr ''F''] 3 3"
  let ?pages = "[[JStr ''A'', JStr ''B''], [JStr ''C'', JStr ''D''], [JStr ''E'', JStr ''F'']]"
  have three: "\<forall>i<length ?pages. is_page (?answers i) (?pages ! i) (int i + 1) (int (length ?pages))"
    by (auto simp: less_Suc_eq is_page_page_response)
  have one: "\<forall>i<length [[JStr ''A'', JStr ''B'']].
               is_page (page_response [JStr ''A'', JStr ''B''] 1 1) ([[JStr ''A'', JStr ''B'']] ! i)
                 (int i + 1) (int (length [[JStr ''A'', JStr ''B'']]))"
    by (simp add: is_page_page_response)
  show ?thesis
    using listers_concat_pages [of "[''access_token'' \<mapsto> ''T'']" "''T''" ?pages ?answers 2
            "\<lambda>s. None" "''example.org''", OF _ _ three]
          listers_concat_pages [of "[''access_token'' \<mapsto> ''T'']" "''T''" "[[JStr ''A'', JStr ''B'']]"
            "\<lambda>i. page_response [JStr ''A'', JStr ''B''] 1 1" 0 "\<lambda>s. None" "''example.org''", OF _ _ one]
    by simp
qed

subsection \<open>Termination of the pagination loops\<close>

lemma files_loop_returns:
  assumes "\<forall>i\<le>m. is_page (answers i) (its i) (p i) (tp i)" and "p m = tp m"
    and "length log = k" and "page = total_pages \<or> k \<le> m" and "fuel = Suc m - k"
  shows "\<exists>v. snd (files_loop fuel parse_int answers url token log (JArr acc) page total_pages) = Some (Inr v)"
  using assms(3-)
proof (induction fuel arbitrary: k log acc page total_pages)
  case 0
  then show ?case by auto
next
  case (Suc fuel)
  show ?case
  proof (cases "page = total_pages")
    case True
    then show ?thesis by simp
  next
    case False
    with Suc.prems have km: "k \<le> m" by simp
    with assms(1) Suc.prems have pg: "is_page (answers (length log)) (its k) (p k) (tp k)"
      by simp
    have "p k = tp k \<or> Suc k \<le> m"
      using km assms(2) by (cases "k = m") auto
    then have "\<exists>v. snd (files_loop fuel parse_int answers url token
                  (log @ [\<lparr>req_method = GET, req_url = url @ ''?page='' @ str_of_int (page + 1),
                           req_headers = [(''Authorization'', token)], req_body = NoBody, req_stream = False\<rparr>])
                  (JArr (acc @ its k)) (p k) (tp k)) = Some (Inr v)"
      using Suc.prems by (intro Suc.IH [of _ "Suc k"]) auto
    with False show ?thesis
      by (simp add: Let_def files_next_page [OF pg])
  qed
qed

lemma folders_loop_returns:
  assumes "\<forall>i\<le>m. is_page (answers i) (its i) (p i) (tp i)" and "p m = tp m"
    and "length log = k" and "page = total_pages \<or> k \<le> m" and "fuel = Suc m - k"
  shows "\<exists>v. snd (folders_loop fuel answers url token log (JArr acc) (JInt page) (JInt total_pages)) = Some (Inr v)"
  using assms(3-)
proof (induction fuel arbitrary: k log acc page total_pages)
  case 0
  then show ?case by auto
next
  case (Suc fuel)
  show ?case
  proof (cases "page = total_pages")
    case True
    then show ?thesis by simp
  next
    case False
    with Suc.prems have km: "k \<le> m" by simp
    with assms(1) Suc.prems have pg: "is_page (answers (length log)) (its k) (p k) (tp k)"
      by simp
    have "p k = tp k \<or> Suc k \<le> m"
      using km assms(2) by (cases "k = m") auto
    then have "\<exists>v. snd (folders_loop fuel answers url token
                  (log @ [\<lparr>req_method = GET, req_url = url @ ''?page='' @ str_of_int (page + 1),
                           req_headers = [(''Authorization'', token)], req_body = NoBody, req_stream = False\<rparr>])
                  (JArr (acc @ its k)) (JInt (p k)) (JInt (tp k))) = Some (Inr v)"
      using Suc.prems by (intro Suc.IH [of _ "Suc k"]) auto
    with False show ?thesis
      by (simp add: Let_def folders_next_page [OF pg])
  qed
qed

lemma files_loop_diverges:
  assumes "\<forall>i. is_page (answers i) (its i) (p i) (tp i) \<and> p i \<noteq> tp i" and "page \<noteq> total_pages"
  shows "snd (files_loop fuel parse_int answers url token log (JArr acc) page total_pages) = None"
  using assms(2)
proof (induction fuel arbitrary: log acc page total_pages)
  case 0
  then show ?case by simp
next
  case (Suc fuel)
  from assms(1) have pg: "is_page (answers (length log)) (its (length log)) (p (length log)) (tp (length log))"
    and ne: "p (length log) \<noteq> tp (length log)" by auto
  show ?case
    using Suc.prems Suc.IH [OF ne] by (simp add: Let_def files_next_page [OF pg])
qed

lemma folders_loop_diverges:
  assumes "\<forall>i. is_page (answers i) (its i) (p i) (tp i) \<and> p i \<noteq> tp i" and "page \<noteq> total_pages"
  shows "snd (folders_loop fuel answers url token log (JArr acc) (JInt page) (JInt total_pages)) = None"
  using assms(2)
proof (induction fuel arbitrary: log acc page total_pages)
  case 0
  then show ?case by simp
next
  case (Suc fuel)
  from assms(1) have pg: "is_page (answers (length log)) (its (length log)) (p (length log)) (tp (length log))"
    and ne: "p (length log) \<noteq> tp (length log)" by auto
  show ?case
    using Suc.prems Suc.IH [OF ne] by (simp add: Let_def folders_next_page [OF pg])
qed

text \<open>
  C3: if \<open>paging.page\<close> grows by one from each answer to the next and the \<open>m\<close>-th answer
  has \<open>paging.page = paging.totalPages\<close>, both listers return, after at most \<open>m\<close>
  iterations of the loop (every larger fuel gives the same value).  If every answer is
  page 1 of 2, a sequence that never advances, the loop of either lister is still running
  after any number of iterations: nothing in the code bounds it.
\<close>

theorem pagination_terminates_or_not:
  assumes "tokens ''access_token'' = Some tk"
  shows "((\<forall>i\<le>m. is_page (answers i) (its i) (p0 + int i) (tp i)) \<and> p0 + int m = tp m \<longrightarrow>
            (\<exists>v. \<forall>fuel\<ge>m. snd (available_files fuel parse_int answers base_url tokens) = Some (Inr v))
          \<and> (\<exists>v. \<forall>fuel\<ge>m. snd (available_folders fuel parse_int answers base_url tokens) = Some (Inr v)))
       \<and> (\<forall>fuel. snd (available_files fuel parse_int (\<lambda>i. page_response xs 1 2) base_url tokens) = None)
       \<and> (\<forall>fuel. snd (available_folders fuel parse_int (\<lambda>i. page_response xs 1 2) base_url tokens) = None)"
proof (intro conjI impI allI)
  assume "(\<forall>i\<le>m. is_page (answers i) (its i) (p0 + int i) (tp i)) \<and> p0 + int m = tp m"
  then have pages: "\<forall>i\<le>m. is_page (answers i) (its i) (p0 + int i) (tp i)"
    and last: "p0 + int m = tp m" by auto
  from pages have p0: "is_page (answers 0) (its 0) (p0 + int 0) (tp 0)" by blast
  have start: "p0 + int 0 = tp 0 \<or> 1 \<le> m"
    using last by (cases m) auto
  let ?url = "''https://moveit.'' @ base_url @ ''/api/v1/files''"
  let ?req = "\<lparr>req_method = GET, req_url = ?url,
               req_headers = [(''Authorization'', ''Bearer '' @ tk)], req_body = NoBody, req_stream = False\<rparr>"
  have "\<exists>v. snd (files_loop m parse_int answers ?url (''Bearer '' @ tk) [?req]
                        (JArr (its 0)) (p0 + int 0) (tp 0)) = Some (Inr v)"
    by (rule files_loop_returns [OF pages last _ start]) auto
  then obtain v where v: "snd (files_loop m parse_int answers ?url (''Bearer '' @ tk) [?req]
                        (JArr (its 0)) (p0 + int 0) (tp 0)) = Some (Inr v)" ..
  have "\<forall>fuel\<ge>m. snd (available_files fuel parse_int answers base_url tokens) = Some (Inr v)"
  proof (intro allI impI)
    fix fuel assume "m \<le> fuel"
    then obtain d where "fuel = m + d" using le_Suc_ex by blast
    with files_loop_fuel_mono [OF v, of d] v
    show "snd (available_files fuel parse_int answers base_url tokens) = Some (Inr v)"
      using assms by (simp add: available_files_def Let_def first_page [OF p0])
  qed
  then show "\<exists>v. \<forall>fuel\<ge>m. snd (available_files fuel parse_int answers base_url tokens) = Some (Inr v)" ..
  let ?url' = "''https://moveit.'' @ base_url @ ''/api/v1/folders''"
  let ?req' = "\<lparr>req_method = GET, req_url = ?url',
               req_headers = [(''Authorization'', ''Bearer '' @ tk)], req_body = NoBody, req_stream = False\<rparr>"
  have "\<exists>w. snd (folders_loop m answers ?url' (''Bearer '' @ tk) [?req']
                        (JArr (its 0)) (JInt (p0 + int 0)) (JInt (tp 0))) = Some (Inr w)"
    by (rule folders_loop_returns [OF pages last _ start]) auto
  then obtain w where w: "snd (folders_loop m answers ?url' (''Bearer '' @ tk) [?req']
                        (JArr (its 0)) (JInt (p0 + int 0)) (JInt (tp 0))) = Some (Inr w)" ..
  have "\<forall>fuel\<ge>m. snd (available_folders fuel parse_int answers base_url tokens) = Some (Inr w)"
  proof (intro allI impI)
    fix fuel assume "m \<le> fuel"
    then obtain d where "fuel = m + d" using le_Suc_ex by blast
    with folders_loop_fuel_mono [OF w, of d] w
    show "snd (available_folders fuel parse_int answers base_url tokens) = Some (Inr w)"
      using assms by (simp add: available_folders_def Let_def first_page [OF p0])
  qed
  then show "\<exists>v. \<forall>fuel\<ge>m. snd (available_folders fuel parse_int answers base_url tokens) = Some (Inr v)" ..
next
  fix fuel
  have stuck: "\<forall>i::nat. is_page (page_response xs 1 2) xs 1 2 \<and> (1::int) \<noteq> 2"
    by (simp add: is_page_page_response)
  show "snd (available_files fuel parse_int (\<lambda>i. page_response xs 1 2) base_url tokens) = None"
    using assms files_loop_diverges [of "\<lambda>i. page_response xs 1 2" "\<lambda>i. xs" "\<lambda>i. 1" "\<lambda>i. 2" 1 2, OF stuck]
    by (simp add: available_files_def Let_def first_page [OF is_page_page_response])
  show "snd (available_folders fuel parse_int (\<lambda>i. page_response xs 1 2) base_url tokens) = None"
    using assms folders_loop_diverges [of "\<lambda>i. page_response xs 1 2" "\<lambda>i. xs" "\<lambda>i. 1" "\<lambda>i. 2" 1 2, OF stuck]
    by (simp add: available_folders_def Let_def first_page [OF is_page_page_response])
qed

theorem pagination_terminates_or_not_witness:
  "(\<exists>v. snd (available_files 2 (\<lambda>s. None) (\<lambda>i. page_response [JInt (int i)] (1 + int i) 3)
               ''example.org'' [''access_token'' \<mapsto> ''T'']) = Some (Inr v))
   \<and> (\<exists>v. snd (available_folders 2 (\<lambda>s. None) (\<lambda>i. page_response [JInt (int i)] (1 + int i) 3)
               ''example.org'' [''access_token'' \<mapsto> ''T'']) = Some (Inr v))
   \<and> snd (available_files 7 (\<lambda>s. None) (\<lambda>i. page_response [] 1 2)
               ''example.org'' [''access_token'' \<mapsto> ''T'']) = None
   \<and> snd (available_folders 7 (\<lambda>s. None) (\<lambda>i. page_response [] 1 2)
               ''example.org'' [''access_token'' \<mapsto> ''T'']) = None"
proof -
  have pages: "\<forall>i\<le>2. is_page (page_response [JInt (int i)] (1 + int i) 3) [JInt (int i)] (1 + int i) 3"
    by (simp add: is_page_page_response)
  show ?thesis
    using pagination_terminates_or_not [of "[''access_token'' \<mapsto> ''T'']" "''T''" 2
            "\<lambda>i. page_response [JInt (int i)] (1 + int i) 3" "\<lambda>i. [JInt (int i)]" 1 "\<lambda>i. 3"
            "\<lambda>s. None" "''example.org''" "[]"] pages
    by auto
qed

subsection \<open>The two listers compared\<close>

lemma int_paging_page_response: "int_paging (page_response its p t)"
  by (simp add: int_paging_def page_response_def raise_or_def response_json_def paging_field_def)

lemma folders_next_files_next:
  assumes "int_paging answer"
  shows "raise_or (raise_or answer response_json) (folders_next items)
           = map_sum id (\<lambda>(items', page, total_pages). (items', JInt page, JInt total_pages))
               (raise_or (raise_or answer response_json) (files_next parse_int items))"
proof (cases "raise_or answer response_json")
  case (Inl e)
  then show ?thesis by (simp add: raise_or_def)
next
  case (Inr j)
  with assms have pg: "int_or_raised (paging_field j ''page'')"
    and tp: "int_or_raised (paging_field j ''totalPages'')"
    by (simp_all add: int_paging_def)
  from pg have 1: "raise_or (paging_field j ''page'') (py_int parse_int)
                     = map_sum id (\<lambda>v. case v of JInt n \<Rightarrow> n | _ \<Rightarrow> 0) (paging_field j ''page'')
                   \<and> paging_field j ''page''
                     = map_sum id (\<lambda>v. JInt (case v of JInt n \<Rightarrow> n | _ \<Rightarrow> 0)) (paging_field j ''page'')"
    by (cases "paging_field j ''page''" rule: int_or_raised.cases) (auto simp: raise_or_def)
  from tp have 2: "raise_or (paging_field j ''totalPages'') (py_int parse_int)
                     = map_sum id (\<lambda>v. case v of JInt n \<Rightarrow> n | _ \<Rightarrow> 0) (paging_field j ''totalPages'')
                   \<and> paging_field j ''totalPages''
                     = map_sum id (\<lambda>v. JInt (case v of JInt n \<Rightarrow> n | _ \<Rightarrow> 0)) (paging_field j ''totalPages'')"
    by (cases "paging_field j ''totalPages''" rule: int_or_raised.cases) (auto simp: raise_or_def)
  show ?thesis
    unfolding Inr folders_next_def files_next_def
    by (cases "extend_items items j"; cases "paging_field j ''page''"; cases "paging_field j ''totalPages''")
       (use 1 2 in \<open>auto simp: raise_or_def\<close>)
qed

lemma folders_loop_files_loop:
  assumes "\<forall>i. int_paging (answers i)" and "length log = length log'"
  shows "snd (folders_loop fuel answers url token log items (JInt page) (JInt total_pages))
           = snd (files_loop fuel parse_int answers url' token' log' items page total_pages)"
  using assms(2)
proof (induction fuel arbitrary: log log' items page total_pages)
  case 0
  then show ?case by simp
next
  case (Suc fuel)
  from assms(1) have ip: "int_paging (answers (length log'))" by blast
  show ?case
  proof (cases "raise_or (raise_or (answers (length log')) response_json) (files_next parse_int items)")
    case (Inl e)
    then show ?thesis
      using Suc.prems folders_next_files_next [OF ip, of items parse_int]
      by (simp add: Let_def)
  next
    case (Inr s)
    obtain items' page' total' where s: "s = (items', page', total')" by (cases s) auto
    let ?req = "\<lparr>req_method = GET, req_url = url @ ''?page='' @ str_of_int (page + 1),
                 req_headers = [(''Authorization'', token)], req_body = NoBody, req_stream = False\<rparr>"
    let ?req' = "\<lparr>req_method = GET, req_url = url' @ ''?page='' @ str_of_int (page + 1),
                 req_headers = [(''Authorization'', token')], req_body = NoBody, req_stream = False\<rparr>"
    have "length (log @ [?req]) = length (log' @ [?req'])" using Suc.prems by simp
    from Suc.IH [OF this, of items' page' total'] show ?thesis
      using Suc.prems Inr s folders_next_files_next [OF ip, of items parse_int]
      by (simp add: Let_def)
  qed
qed

text \<open>
  C8: when every answer holds integers under \<open>paging.page\<close> and \<open>paging.totalPages\<close>, the two
  listers, given the same answers, end the same way after the same number of iterations:
  they return the same items, raise the same exception, or are both still running.  That
  the loop of \<open>available_folders\<close> does not coerce the two fields makes no difference then.
\<close>

theorem folders_files_equivalent:
  assumes "\<forall>i. int_paging (answers i)"
  shows "snd (available_folders fuel parse_int answers base_url tokens)
           = snd (available_files fuel parse_int answers base_url tokens)"
proof (cases "tokens ''access_token''")
  case None
  then show ?thesis by (simp add: available_folders_def available_files_def)
next
  case (Some t)
  show ?thesis
  proof (cases "raise_or (raise_or (answers 0) response_json) (\<lambda>files.
                   raise_or (py_getitem files ''items'') (\<lambda>items.
                   raise_or (raise_or (paging_field files ''page'') (py_int parse_int)) (\<lambda>page.
                   raise_or (raise_or (paging_field files ''totalPages'') (py_int parse_int)) (\<lambda>total_pages.
                   Inr (items, page, total_pages)))))")
    case (Inl e)
    with Some show ?thesis by (simp add: available_folders_def available_files_def Let_def)
  next
    case (Inr s)
    obtain items page total where s: "s = (items, page, total)" by (cases s) auto
    from Some Inr s show ?thesis
      by (simp add: available_folders_def available_files_def Let_def
            folders_loop_files_loop [OF assms, where parse_int = parse_int
              and url' = "''https://moveit.'' @ base_url @ ''/api/v1/files''" and token' = "''Bearer '' @ t"
              and log' = "[\<lparr>req_method = GET, req_url = ''https://moveit.'' @ base_url @ ''/api/v1/files'',
                 req_headers = [(''Authorization'', ''Bearer '' @ t)], req_body = NoBody, req_stream = False\<rparr>]"])
  qed
qed

theorem folders_files_equivalent_witness:
  "snd (available_folders 1 (\<lambda>s. None) (\<lambda>i. page_response [JInt (int i)] (1 + int i) 2)
          ''example.org'' [''access_token'' \<mapsto> ''T''])
     = snd (available_files 1 (\<lambda>s. None) (\<lambda>i. page_response [JInt (int i)] (1 + int i) 2)
          ''example.org'' [''access_token'' \<mapsto> ''T''])
   \<and> snd (available_files 1 (\<lambda>s. None) (\<lambda>i. page_response [JInt (int i)] (1 + int i) 2)
          ''example.org'' [''access_token'' \<mapsto> ''T''])
     = Some (Inr (JArr [JInt 0, JInt 1]))"
proof -
  have "\<forall>i. int_paging (page_response [JInt (int i)] (1 + int i) 2)"
    by (simp add: int_paging_page_response)
  from folders_files_equivalent [OF this, of 1 "\<lambda>s. None" "''example.org''" "[''access_token'' \<mapsto> ''T'']"]
  show ?thesis
    by (simp add: available_files_def page_response_def raise_or_def response_json_def paging_field_def
          files_next_def extend_items_def Let_def)
qed

text \<open>
  Off the integers the coercion shows: when the second answer holds the string \<open>"2"\<close>
  under \<open>paging.page\<close> and the integer 2 under \<open>paging.totalPages\<close>, \<open>available_files\<close> returns
  both pages, and \<open>available_folders\<close> finds \<open>"2" != 2\<close> and raises on \<open>"2" + 1\<close>.
\<close>

lemma folders_files_differ_on_strings:
  "snd (available_files 1 (\<lambda>s. if s = ''2'' then Some 2 else None)
          (\<lambda>i. if i = 0 then page_response [JStr ''A''] 1 2
                else Inr \<lparr>status_code = 200, reason = ''OK'', resp_url = [],
                          json_body = Some (JObj [(''items'', JArr [JStr ''B'']),
                                        (''paging'', JObj [(''page'', JStr ''2''), (''totalPages'', JInt 2)])]),
                          content = []\<rparr>)
          ''example.org'' [''access_token'' \<mapsto> ''T''])
     = Some (Inr (JArr [JStr ''A'', JStr ''B'']))
   \<and> snd (available_folders 2 (\<lambda>s. if s = ''2'' then Some 2 else None)
          (\<lambda>i. if i = 0 then page_response [JStr ''A''] 1 2
                else Inr \<lparr>status_code = 200, reason = ''OK'', resp_url = [],
                          json_body = Some (JObj [(''items'', JArr [JStr ''B'']),
                                        (''paging'', JObj [(''page'', JStr ''2''), (''totalPages'', JInt 2)])]),
                          content = []\<rparr>)
          ''example.org'' [''access_token'' \<mapsto> ''T''])
     = Some (Inl TypeError)"
  by (simp add: available_files_def available_folders_def page_response_def raise_or_def
        response_json_def paging_field_def files_next_def folders_next_def extend_items_def Let_def
        numeral_2_eq_2)

subsection \<open>The bearer token\<close>

lemma files_loop_requests:
  assumes "\<forall>r\<in>set log. map_of (req_headers r) ''Authorization'' = Some token"
  shows "\<forall>r\<in>set (fst (files_loop fuel parse_int answers url token log items page total_pages)).
           map_of (req_headers r) ''Authorization'' = Some token"
  using assms
proof (induction fuel arbitrary: log items page total_pages)
  case 0
  then show ?case by simp
next
  case (Suc fuel)
  show ?case
  proof (cases "raise_or (raise_or (answers (length log)) response_json) (files_next parse_int items)")
    case (Inl e)
    with Suc.prems show ?thesis by (simp add: Let_def)
  next
    case (Inr s)
    obtain items' page' total' where s: "s = (items', page', total')" by (cases s) auto
    let ?req = "\<lparr>req_method = GET, req_url = url @ ''?page='' @ str_of_int (page + 1),
                 req_headers = [(''Authorization'', token)], req_body = NoBody, req_stream = False\<rparr>"
    have "\<forall>r\<in>set (log @ [?req]). map_of (req_headers r) ''Authorization'' = Some token"
      using Suc.prems by simp
    from Suc.IH [OF this] Suc.prems Inr s show ?thesis by (simp add: Let_def)
  qed
qed

lemma folders_loop_requests:
  assumes "\<forall>r\<in>set log. map_of (req_headers r) ''Authorization'' = Some token"
  shows "\<forall>r\<in>set (fst (folders_loop fuel answers url token log items page total_pages)).
           map_of (req_headers r) ''Authorization'' = Some token"
  using assms
proof (induction fuel arbitrary: log items page total_pages)
  case 0
  then show ?case by simp
next
  case (Suc fuel)
  show ?case
  proof (cases "py_add1 page")
    case (Inl e)
    with Suc.prems show ?thesis by simp
  next
    case next_page: (Inr next_page)
    show ?thesis
    proof (cases "raise_or (raise_or (answers (length log)) response_json) (folders_next items)")
      case (Inl e)
      with Suc.prems next_page show ?thesis by (simp add: Let_def)
    next
      case (Inr s)
      obtain items' page' total' where s: "s = (items', page', total')" by (cases s) auto
      let ?req = "\<lparr>req_method = GET, req_url = url @ ''?page='' @ str_of_int next_page,
                   req_headers = [(''Authorization'', token)], req_body = NoBody, req_stream = False\<rparr>"
      have "\<forall>r\<in>set (log @ [?req]). map_of (req_headers r) ''Authorization'' = Some token"
        using Suc.prems by simp
      from Suc.IH [OF this] Suc.prems Inr s next_page show ?thesis by (simp add: Let_def)
    qed
  qed
qed

lemma files_loop_log_prefix:
  "\<exists>more. fst (files_loop fuel parse_int answers url token log items page total_pages) = log @ more"
proof (induction fuel arbitrary: log items page total_pages)
  case 0
  then show ?case by simp
next
  case (Suc fuel)
  show ?case
  proof (cases "raise_or (raise_or (answers (length log)) response_json) (files_next parse_int items)")
    case (Inl e)
    then show ?thesis by (simp add: Let_def)
  next
    case (Inr s)
    obtain items' page' total' where s: "s = (items', page', total')" by (cases s) auto
    let ?req = "\<lparr>req_method = GET, req_url = url @ ''?page='' @ str_of_int (page + 1),
                 req_headers = [(''Authorization'', token)], req_body = NoBody, req_stream = False\<rparr>"
    from Suc.IH [of "log @ [?req]" items' page' total'] Inr s show ?thesis
      by (auto simp: Let_def)
  qed
qed

lemma folders_loop_log_prefix:
  "\<exists>more. fst (folders_loop fuel answers url token log items page total_pages) = log @ more"
proof (induction fuel arbitrary: log items page total_pages)
  case 0
  then show ?case by simp
next
  case (Suc fuel)
  show ?case
  proof (cases "py_add1 page")
    case (Inl e)
    then show ?thesis by simp
  next
    case next_page: (Inr next_page)
    show ?thesis
    proof (cases "raise_or (raise_or (answers (length log)) response_json) (folders_next items)")
      case (Inl e)
      with next_page show ?thesis by (simp add: Let_def)
    next
      case (Inr s)
      obtain items' page' total' where s: "s = (items', page', total')" by (cases s) auto
      let ?req = "\<lparr>req_method = GET, req_url = url @ ''?page='' @ str_of_int next_page,
                   req_headers = [(''Authorization'', token)], req_body = NoBody, req_stream = False\<rparr>"
      from Suc.IH [of "log @ [?req]" items' page' total'] Inr s next_page show ?thesis
        by (auto simp: Let_def)
    qed
  qed
qed

lemma files_loop_log_nonempty:
  "log \<noteq> [] \<Longrightarrow> fst (files_loop fuel parse_int answers url token log items page total_pages) \<noteq> []"
  using files_loop_log_prefix [of fuel parse_int answers url token log items page total_pages] by auto

lemma folders_loop_log_nonempty:
  "log \<noteq> [] \<Longrightarrow> fst (folders_loop fuel answers url token log items page total_pages) \<noteq> []"
  using folders_loop_log_prefix [of fuel answers url token log items page total_pages] by auto

text \<open>
  C7: when the token mapping holds \<open>T\<close> under \<open>access_token\<close>, every request the four
  authenticated functions send carries the header \<open>Authorization: Bearer T\<close>: the first
  request of a lister and each request of its loop, however long the loop runs, the
  download request and the upload request.  The listers and the download send at least
  one request.
\<close>

theorem authenticated_requests_carry_bearer:
  assumes "tokens ''access_token'' = Some T"
  shows "(\<forall>r\<in>set (fst (available_files fuel parse_int answers base_url tokens)).
            map_of (req_headers r) ''Authorization'' = Some (''Bearer '' @ T))
       \<and> fst (available_files fuel parse_int answers base_url tokens) \<noteq> []
       \<and> (\<forall>r\<in>set (fst (available_folders fuel parse_int answers base_url tokens)).
            map_of (req_headers r) ''Authorization'' = Some (''Bearer '' @ T))
       \<and> fst (available_folders fuel parse_int answers base_url tokens) \<noteq> []
       \<and> (\<forall>r\<in>set (fst (snd (read_move_it_file pd tmp_name fs answer base_url tokens file_id file_type sheet_download))).
            map_of (req_headers r) ''Authorization'' = Some (''Bearer '' @ T))
       \<and> fst (snd (read_move_it_file pd tmp_name fs answer base_url tokens file_id file_type sheet_download)) \<noteq> []
       \<and> (\<forall>r\<in>set (fst (upload_move_it_file fs answer base_url tokens folder_id file_path mime chunked)).
            map_of (req_headers r) ''Authorization'' = Some (''Bearer '' @ T))"
proof -
  let ?token = "''Bearer '' @ T"
  let ?P = "\<lambda>r. map_of (req_headers r) ''Authorization'' = Some ?token"
  have files: "\<forall>r\<in>set (fst (available_files fuel parse_int answers base_url tokens)). ?P r"
  proof -
    let ?url = "''https://moveit.'' @ base_url @ ''/api/v1/files''"
    let ?req = "\<lparr>req_method = GET, req_url = ?url,
                 req_headers = [(''Authorization'', ?token)], req_body = NoBody, req_stream = False\<rparr>"
    have "\<forall>r\<in>set [?req]. ?P r" by simp
    from files_loop_requests [OF this] assms show ?thesis
      by (auto simp: available_files_def Let_def split: sum.splits)
  qed
  have files_ne: "fst (available_files fuel parse_int answers base_url tokens) \<noteq> []"
  proof -
    let ?url = "''https://moveit.'' @ base_url @ ''/api/v1/files''"
    let ?req = "\<lparr>req_method = GET, req_url = ?url,
                 req_headers = [(''Authorization'', ?token)], req_body = NoBody, req_stream = False\<rparr>"
    have "\<And>items page total_pages.
            fst (files_loop fuel parse_int answers ?url ?token [?req] items page total_pages) \<noteq> []"
      by (rule files_loop_log_nonempty) simp
    with assms show ?thesis
      by (auto simp: available_files_def Let_def split: sum.splits)
  qed
  have folders: "\<forall>r\<in>set (fst (available_folders fuel parse_int answers base_url tokens)). ?P r"
  proof -
    let ?url = "''https://moveit.'' @ base_url @ ''/api/v1/folders''"
    let ?req = "\<lparr>req_method = GET, req_url = ?url,
                 req_headers = [(''Authorization'', ?token)], req_body = NoBody, req_stream = False\<rparr>"
    have "\<forall>r\<in>set [?req]. ?P r" by simp
    from folders_loop_requests [OF this] assms show ?thesis
      by (auto simp: available_folders_def Let_def split: sum.splits)
  qed
  have folders_ne: "fst (available_folders fuel parse_int answers base_url tokens) \<noteq> []"
  proof -
    let ?url = "''https://moveit.'' @ base_url @ ''/api/v1/folders''"
    let ?req = "\<lparr>req_method = GET, req_url = ?url,
                 req_headers = [(''Authorization'', ?token)], req_body = NoBody, req_stream = False\<rparr>"
    have "\<And>items page total_pages.
            fst (folders_loop fuel answers ?url ?token [?req] items page total_pages) \<noteq> []"
      by (rule folders_loop_log_nonempty) simp
    with assms show ?thesis
      by (auto simp: available_folders_def Let_def split: sum.splits)
  qed
  have rd: "(\<forall>r\<in>set (fst (snd (read_move_it_file pd tmp_name fs answer base_url tokens file_id file_type sheet_download))). ?P r)
      \<and> fst (snd (read_move_it_file pd tmp_name fs answer base_url tokens file_id file_type sheet_download)) \<noteq> []"
    using assms
    by (auto simp: read_move_it_file_def Let_def file_bytes_def split: sum.splits option.splits)
  have up: "\<forall>r\<in>set (fst (upload_move_it_file fs answer base_url tokens folder_id file_path mime chunked)). ?P r"
    using assms
    by (auto simp: upload_move_it_file_def Let_def file_bytes_def getsize_def
             split: sum.splits option.splits)
  from files files_ne folders folders_ne rd up show ?thesis by blast
qed

theorem authenticated_requests_carry_bearer_witness:
  "map (\<lambda>r. (req_url r, map_of (req_headers r) ''Authorization''))
     (fst (available_files 1 (\<lambda>s. None) (\<lambda>i. page_response [] (1 + int i) 2)
             ''example.org'' [''access_token'' \<mapsto> ''T'']))
     = [(''https://moveit.example.org/api/v1/files'', Some ''Bearer T''),
        (''https://moveit.example.org/api/v1/files?page=2'', Some ''Bearer T'')]
   \<and> map (\<lambda>r. (req_url r, map_of (req_headers r) ''Authorization''))
     (fst (available_folders 1 (\<lambda>s. None) (\<lambda>i. page_response [] (1 + int i) 2)
             ''example.org'' [''access_token'' \<mapsto> ''T'']))
     = [(''https://moveit.example.org/api/v1/folders'', Some ''Bearer T''),
        (''https://moveit.example.org/api/v1/folders?page=2'', Some ''Bearer T'')]
   \<and> map (\<lambda>r. (req_url r, map_of (req_headers r) ''Authorization''))
     (fst (snd (read_move_it_file \<lparr>read_csv = (\<lambda>sep bytes. Inr bytes), read_excel = (\<lambda>(sheet::unit) bytes. Inr bytes)\<rparr>
             ''/tmp/tmpabc'' Map.empty (Inl ConnectionError)
             ''example.org'' [''access_token'' \<mapsto> ''T''] ''17'' ''csv'' ())))
     = [(''https://moveit.example.org/api/v1/files/17/download'', Some ''Bearer T'')]
   \<and> map (\<lambda>r. (req_url r, map_of (req_headers r) ''Authorization''))
     (fst (upload_move_it_file [''/data/a.csv'' \<mapsto> ''a,b''] (Inl ConnectionError)
             ''example.org'' [''access_token'' \<mapsto> ''T''] ''42'' ''/data/a.csv'' ''text/csv'' (Some True)))
     = [(''https://moveit.example.org/api/v1/folders/42/files'', Some ''Bearer T'')]"
  using authenticated_requests_carry_bearer [of "[''access_token'' \<mapsto> ''T'']" "''T''" 1 "\<lambda>s. None"
          "\<lambda>i. page_response [] (1 + int i) 2" "''example.org''"
          "\<lparr>read_csv = (\<lambda>sep bytes. Inr bytes), read_excel = (\<lambda>(sheet::unit) bytes. Inr bytes)\<rparr>"
          "''/tmp/tmpabc''" Map.empty "Inl ConnectionError" "''17''" "''csv''" "()"
          "''42''" "''/data/a.csv''" "''text/csv''" "Some True"]
  by (simp add: available_files_def available_folders_def read_move_it_file_def upload_move_it_file_def
        page_response_def raise_or_def response_json_def paging_field_def files_next_def folders_next_def
        extend_items_def file_bytes_def getsize_def str_of_int_def digits.simps Let_def)

text \<open>
  C10: when the token mapping has no \<open>access_token\<close>, each of the four authenticated
  functions raises \<open>KeyError('access_token')\<close> and has sent no request.  (The download has
  created its transient file by then, and leaves it.)
\<close>

theorem missing_access_token_no_request:
  assumes "tokens ''access_token'' = None"
  shows "available_files fuel parse_int answers base_url tokens = ([], Some (Inl (KeyError ''access_token'')))
       \<and> available_folders fuel parse_int answers base_url tokens = ([], Some (Inl (KeyError ''access_token'')))
       \<and> snd (read_move_it_file pd tmp_name fs answer base_url tokens file_id file_type sheet_download)
           = ([], Inl (KeyError ''access_token''))
       \<and> upload_move_it_file fs answer base_url tokens folder_id file_path mime chunked
           = ([], Inl (KeyError ''access_token''))"
  using assms
  by (simp add: available_files_def available_folders_def read_move_it_file_def upload_move_it_file_def)

theorem missing_access_token_no_request_witness:
  "available_files 3 (\<lambda>s. None) (\<lambda>i. page_response [] 1 1) ''example.org'' [''refresh_token'' \<mapsto> ''R'']
     = ([], Some (Inl (KeyError ''access_token'')))
   \<and> available_folders 3 (\<lambda>s. None) (\<lambda>i. page_response [] 1 1) ''example.org'' [''refresh_token'' \<mapsto> ''R'']
     = ([], Some (Inl (KeyError ''access_token'')))
   \<and> snd (read_move_it_file \<lparr>read_csv = (\<lambda>sep bytes. Inr bytes), read_excel = (\<lambda>(sheet::unit) bytes. Inr bytes)\<rparr>
             ''/tmp/tmpabc'' [''/data/a.csv'' \<mapsto> ''a,b''] (page_response [] 1 1)
             ''example.org'' [''refresh_token'' \<mapsto> ''R''] ''17'' ''csv'' ())
     = ([], Inl (KeyError ''access_token''))
   \<and> upload_move_it_file [''/data/a.csv'' \<mapsto> ''a,b''] (page_response [] 1 1)
             ''example.org'' [''refresh_token'' \<mapsto> ''R''] ''42'' ''/data/a.csv'' ''text/csv'' None
     = ([], Inl (KeyError ''access_token''))"
  using missing_access_token_no_request [of "[''refresh_token'' \<mapsto> ''R'']" 3 "\<lambda>s. None"
          "\<lambda>i. page_response [] 1 1" "''example.org''"
          "\<lparr>read_csv = (\<lambda>sep bytes. Inr bytes), read_excel = (\<lambda>(sheet::unit) bytes. Inr bytes)\<rparr>"
          "''/tmp/tmpabc''" "[''/data/a.csv'' \<mapsto> ''a,b'']" "page_response [] 1 1" "''17''" "''csv''" "()"
          "''42''" "''/data/a.csv''" "''text/csv''" None]
  by simp

end
